theory Spec2Isabelle
  imports Main "HOL-Library.Word" "HOL-Library.Multiset"
begin

section \<open>Strings\<close>

text \<open>
  A JavaScript string is a sequence of UTF-16 code units. The regular expression of
  \<open>extractASIN\<close> and \<open>String.prototype.trim\<close> both work on code units, so the model
  keeps them as 16-bit words.
\<close>

type_synonym js_string = "16 word list"

text \<open>Writing an ASCII literal as a JavaScript string.\<close>

definition ascii :: "string \<Rightarrow> js_string" where
  "ascii s = map (\<lambda>c. word_of_nat (of_char c)) s"

section \<open>Identifier extraction\<close>

text \<open>The character class \<open>[A-Z0-9]\<close>.\<close>

definition asin_char :: "16 word \<Rightarrow> bool" where
  "asin_char c \<longleftrightarrow> (0x41 \<le> c \<and> c \<le> 0x5A) \<or> (0x30 \<le> c \<and> c \<le> 0x39)"

text \<open>The character class \<open>[/?]\<close>.\<close>

definition end_char :: "16 word \<Rightarrow> bool" where
  "end_char c \<longleftrightarrow> c = 0x2F \<or> c = 0x3F"

text \<open>
  The pattern \<^verbatim>\<open>\/([A-Z0-9]{10})(?:[/?]|$)\<close> tried at the start of \<open>s\<close>: a slash, ten
  characters of the class, then \<open>/\<close>, \<open>?\<close> or the end of the input. The result is the
  capture group.
\<close>

definition match_here :: "js_string \<Rightarrow> js_string option" where
  "match_here s =
     (case s of
        [] \<Rightarrow> None
      | c # r \<Rightarrow>
          if c = 0x2F \<and> 10 \<le> length r \<and> list_all asin_char (take 10 r)
             \<and> (case drop 10 r of [] \<Rightarrow> True | d # _ \<Rightarrow> end_char d)
          then Some (take 10 r) else None)"

text \<open>\<open>url.match(re)\<close> without the \<open>g\<close> flag: the leftmost position where the pattern matches.\<close>

fun regex_match :: "js_string \<Rightarrow> js_string option" where
  "regex_match [] = None"
| "regex_match (c # r) =
     (case match_here (c # r) of Some g \<Rightarrow> Some g | None \<Rightarrow> regex_match r)"

text \<open>
  \<^verbatim>\<open>
  function extractASIN(url?: string): string | null {
    if (!url) return null;
    const match = url.match(/\/([A-Z0-9]{10})(?:[/?]|$)/);
    return match ? match[1] : null;
  }
  \<close>
  \<open>!url\<close> holds for \<open>undefined\<close> and for the empty string.
\<close>

definition extractASIN :: "js_string option \<Rightarrow> js_string option" where
  "extractASIN url =
     (case url of
        None \<Rightarrow> None
      | Some u \<Rightarrow> if u = [] then None else regex_match u)"

text \<open>
  The specification's wording: a segment of ten uppercase letters or digits starting at
  index \<open>i\<close>, immediately preceded by \<open>/\<close> and followed by \<open>/\<close>, \<open>?\<close> or the end.
\<close>

definition asin_segment_at :: "js_string \<Rightarrow> nat \<Rightarrow> bool" where
  "asin_segment_at u i \<longleftrightarrow>
     0 < i \<and> i + 10 \<le> length u \<and> u ! (i - 1) = 0x2F
     \<and> list_all asin_char (take 10 (drop i u))
     \<and> (i + 10 = length u \<or> end_char (u ! (i + 10)))"

section \<open>Data model\<close>

text \<open>
  \<^verbatim>\<open>type Book = { id: number; url: string; comment: string; book_order: number }\<close>
  (the field \<open>id\<close> is written \<open>id_book\<close>, since \<open>id\<close> is the identity function of HOL).
\<close>

record Book =
  id_book :: int
  url :: js_string
  comment :: js_string
  book_order :: int

text \<open>
  The component state of \<open>Home\<close>: the four \<open>useState\<close> cells.
\<close>

record home_state =
  books :: "Book list"
  newUrl :: js_string
  showAll :: bool
  successMessage :: js_string

definition init_state :: home_state where
  "init_state = \<lparr>books = [], newUrl = [], showAll = False, successMessage = []\<rparr>"

section \<open>The store collaborator\<close>

text \<open>
  The store client (\<open>supabase\<close>) answers every request with an object
  \<open>{ data, error }\<close>. The handlers take the answers as arguments and return, next to the
  new state, the requests they issued, in order.
\<close>

datatype store_error = Store_error

record reply =
  error :: "store_error option"
  data :: "Book list option"

datatype effect =
    Select_books
  | Insert_book js_string int
  | Update_book_order int int
  | Set_timeout nat

section \<open>Handlers\<close>

text \<open>
  \<open>String.prototype.trim\<close> strips white space and line terminators: TAB, LF, VT, FF, CR,
  SP, NBSP, the other space separators of Unicode, LS, PS and the byte order mark.
\<close>

definition is_white_space :: "16 word \<Rightarrow> bool" where
  "is_white_space c \<longleftrightarrow>
     c \<in> {0x9, 0xA, 0xB, 0xC, 0xD, 0x20, 0xA0, 0x1680, 0x2028, 0x2029, 0x202F, 0x205F,
          0x3000, 0xFEFF}
     \<or> (0x2000 \<le> c \<and> c \<le> 0x200A)"

definition trim :: "js_string \<Rightarrow> js_string" where
  "trim s = rev (dropWhile is_white_space (rev (dropWhile is_white_space s)))"

text \<open>The success message of \<open>addBook\<close>, five code units.\<close>

definition success_text :: js_string where
  "success_text = [0x8FFD, 0x52A0, 0x6210, 0x529F, 0xFF01]"

text \<open>
  \<^verbatim>\<open>
  const fetchBooks = async () => {
    const { data, error } = await supabase.from('books').select('*')
      .order('book_order', { ascending: true });
    if (!error && data) { setBooks(data); }
  };
  \<close>
\<close>

definition fetchBooks :: "home_state \<Rightarrow> reply \<Rightarrow> home_state \<times> effect list" where
  "fetchBooks st r =
     ((case error r of
         None \<Rightarrow> (case data r of Some d \<Rightarrow> st\<lparr>books := d\<rparr> | None \<Rightarrow> st)
       | Some e \<Rightarrow> st),
      [Select_books])"

text \<open>
  \<^verbatim>\<open>
  const addBook = async () => {
    if (!newUrl.trim()) return;
    const { error } = await supabase.from('books').insert([
      { url: newUrl, book_order: books.length } ]);
    if (!error) {
      const { data } = await supabase.from('books').select('*')
        .order('book_order', { ascending: true });
      setBooks(data || []);
      setNewUrl('');
      setSuccessMessage(...);
      setTimeout(() => setSuccessMessage(''), 2000);
    }
  };
  \<close>
  \<open>ins\<close> is the store's answer to the insert, \<open>sel\<close> its answer to the reload.
\<close>

definition addBook :: "home_state \<Rightarrow> reply \<Rightarrow> reply \<Rightarrow> home_state \<times> effect list" where
  "addBook st ins sel =
     (if trim (newUrl st) = [] then (st, [])
      else
        (case error ins of
           None \<Rightarrow>
             (st\<lparr>books := (case data sel of Some d \<Rightarrow> d | None \<Rightarrow> []),
                 newUrl := [],
                 successMessage := success_text\<rparr>,
              [Insert_book (newUrl st) (int (length (books st))), Select_books,
               Set_timeout 2000])
         | Some e \<Rightarrow> (st, [Insert_book (newUrl st) (int (length (books st)))])))"

text \<open>The callback of the timer: \<^verbatim>\<open>() => setSuccessMessage('')\<close>.\<close>

definition clear_message :: "home_state \<Rightarrow> home_state" where
  "clear_message st = st\<lparr>successMessage := []\<rparr>"

text \<open>\<open>Array.prototype.findIndex\<close>: the first index whose element satisfies \<open>p\<close>, or \<open>-1\<close>.\<close>

fun findIndex :: "('a \<Rightarrow> bool) \<Rightarrow> 'a list \<Rightarrow> int" where
  "findIndex p [] = -1"
| "findIndex p (x # xs) =
     (if p x then 0 else (let k = findIndex p xs in if k < 0 then -1 else k + 1))"

text \<open>
  The start index of \<open>Array.prototype.splice\<close> on an array of length \<open>len\<close>: a negative
  start counts from the end, and the result is clamped to \<open>[0, len]\<close>.
\<close>

definition splice_start :: "nat \<Rightarrow> int \<Rightarrow> nat" where
  "splice_start len start =
     (if start < 0 then nat (max (int len + start) 0) else min (nat start) len)"

text \<open>
  Modelled from the spec: \<open>arrayMove\<close> is imported from the package
  \<open>@dnd-kit/sortable\<close> and is not under \<open>src/\<close>. The specification (4.2, Reorder) says:
  remove the element at source and reinsert it at destination, shifting all elements
  between the two positions by one. The package does so with two calls of \<open>splice\<close>:
  \<^verbatim>\<open>
  function arrayMove(array, from, to) {
    const newArray = array.slice();
    newArray.splice(to < 0 ? newArray.length + to : to, 0, newArray.splice(from, 1)[0]);
    return newArray;
  }
  \<close>
  The arguments are evaluated from left to right, so \<open>newArray.length\<close> is read before
  the removal. When nothing is removed (possible only out of range) the array would
  receive \<open>undefined\<close>; the model returns \<open>None\<close> there.
\<close>

definition arrayMove :: "'a list \<Rightarrow> int \<Rightarrow> int \<Rightarrow> 'a list option" where
  "arrayMove array from to =
     (let target = (if to < 0 then int (length array) + to else to);
          k = splice_start (length array) from
      in if k < length array
         then
           (let rest = take k array @ drop (Suc k) array;
                s = splice_start (length rest) target
            in Some (take s rest @ [array ! k] @ drop s rest))
         else None)"

text \<open>
  A \<open>DragEndEvent\<close>: the identifier of the dragged item and, when there is a drop target,
  the identifier of the item under it.
\<close>

record DragEndEvent =
  active :: int
  over :: "int option"

datatype js_error = TypeError

text \<open>
  \<^verbatim>\<open>
  const handleDragEnd = async (event: DragEndEvent) => {
    const { active, over } = event;
    if (!over || active.id === over.id) return;
    const oldIndex = books.findIndex((b) => b.id === active.id);
    const newIndex = books.findIndex((b) => b.id === over.id);
    const newBooks = arrayMove(books, oldIndex, newIndex);
    setBooks(newBooks);
    await Promise.all(
      newBooks.map((book, index) =>
        supabase.from('books').update({ book_order: index }).eq('id', book.id)));
  };
  \<close>
  Reading \<open>book.id\<close> of an \<open>undefined\<close> element throws a \<open>TypeError\<close>.
\<close>

definition order_updates :: "Book list \<Rightarrow> effect list" where
  "order_updates newBooks =
     map (\<lambda>(index, book). Update_book_order (id_book book) (int index)) (enumerate 0 newBooks)"

definition handleDragEnd :: "home_state \<Rightarrow> DragEndEvent \<Rightarrow> js_error + home_state \<times> effect list" where
  "handleDragEnd st event =
     (case over event of
        None \<Rightarrow> Inr (st, [])
      | Some over_id \<Rightarrow>
          if active event = over_id then Inr (st, [])
          else
            (let oldIndex = findIndex (\<lambda>b. id_book b = active event) (books st);
                 newIndex = findIndex (\<lambda>b. id_book b = over_id) (books st)
             in case arrayMove (books st) oldIndex newIndex of
                  None \<Rightarrow> Inl TypeError
                | Some newBooks \<Rightarrow> Inr (st\<lparr>books := newBooks\<rparr>, order_updates newBooks)))"

text \<open>\<^verbatim>\<open>const visibleBooks = showAll ? books : books.slice(0, 5);\<close>\<close>

definition visibleBooks :: "home_state \<Rightarrow> Book list" where
  "visibleBooks st = (if showAll st then books st else take 5 (books st))"

text \<open>The toggle button: \<^verbatim>\<open>setShowAll((prev) => !prev)\<close>.\<close>

definition toggleShowAll :: "home_state \<Rightarrow> home_state" where
  "toggleShowAll st = st\<lparr>showAll := \<not> showAll st\<rparr>"

text \<open>
  Modelled from the spec: the store's query \<open>select all ordered by book_order asc\<close>
  (6, External interfaces) is answered by the store service, which is not under \<open>src/\<close>.
  A successful answer on a table holding \<open>rows\<close> carries the same records sorted by
  \<open>book_order\<close>, ascending; the order among ties is whatever the store returns.
\<close>

definition ordered_select :: "Book list \<Rightarrow> reply \<Rightarrow> bool" where
  "ordered_select rows r \<longleftrightarrow>
     error r = None
     \<and> (case data r of
          None \<Rightarrow> False
        | Some d \<Rightarrow> mset d = mset rows \<and> sorted (map book_order d))"

section \<open>Reorder, as the specification words it\<close>

text \<open>
  The specification's Reorder (4.2): remove the element at \<open>source\<close> and reinsert it
  at \<open>destination\<close>; the elements between the two positions shift by one.
\<close>

definition reorder :: "'a list \<Rightarrow> nat \<Rightarrow> nat \<Rightarrow> 'a list" where
  "reorder xs source destination =
     (let rest = take source xs @ drop (Suc source) xs
      in take destination rest @ xs ! source # drop destination rest)"

text \<open>
  Modelled from the spec: the store's \<open>update(id, {book_order})\<close> (6, External
  interfaces) is carried out by the store service, which is not under \<open>src/\<close>. A
  successful update sets \<open>book_order\<close> in every row of the table whose \<open>id\<close> is the given one
  (\<^verbatim>\<open>.update({ book_order: index }).eq('id', book.id)\<close>) and leaves the other rows alone.
\<close>

definition store_update :: "Book list \<Rightarrow> int \<times> int \<Rightarrow> Book list" where
  "store_update rows w =
     map (\<lambda>r. if id_book r = fst w then r\<lparr>book_order := snd w\<rparr> else r) rows"

text \<open>The \<open>book_order\<close> writes among the requests a handler issued: identifier and value.\<close>

fun updates_of :: "effect list \<Rightarrow> (int \<times> int) list" where
  "updates_of [] = []"
| "updates_of (Update_book_order i k # es) = (i, k) # updates_of es"
| "updates_of (Select_books # es) = updates_of es"
| "updates_of (Insert_book u k # es) = updates_of es"
| "updates_of (Set_timeout n # es) = updates_of es"

text \<open>The table after the writes \<open>ws\<close> have completed, one after the other.\<close>

definition apply_updates :: "Book list \<Rightarrow> (int \<times> int) list \<Rightarrow> Book list" where
  "apply_updates rows ws = foldl store_update rows ws"

section \<open>Example values\<close>

definition mk_book :: "int \<Rightarrow> int \<Rightarrow> Book" where
  "mk_book i k = \<lparr>id_book = i, url = [], comment = [], book_order = k\<rparr>"

definition shelf3 :: home_state where
  "shelf3 = \<lparr>books = [mk_book 1 0, mk_book 2 1, mk_book 3 2], newUrl = [], showAll = False,
     successMessage = []\<rparr>"


definition failed :: reply where
  "failed = \<lparr>error = Some Store_error, data = None\<rparr>"

text \<open>The answer to a write that succeeded: \<^verbatim>\<open>{ data: null, error: null }\<close>.\<close>

definition accepted :: reply where
  "accepted = \<lparr>error = None, data = None\<rparr>"

definition succeeded :: "Book list \<Rightarrow> reply" where
  "succeeded d = \<lparr>error = None, data = Some d\<rparr>"

section \<open>Identifier extraction: the leftmost match\<close>

lemma match_here_drop:
  assumes "p < length u"
  shows "match_here (drop p u) =
    (if asin_segment_at u (Suc p) then Some (take 10 (drop (Suc p) u)) else None)"
proof -
  have split: "drop p u = u ! p # drop (Suc p) u"
    using assms by (simp add: Cons_nth_drop_Suc)
  have tail: "(case drop 10 (drop (Suc p) u) of [] \<Rightarrow> True | d # _ \<Rightarrow> end_char d)
      \<longleftrightarrow> (length u \<le> Suc p + 10 \<or> end_char (u ! (Suc p + 10)))"
  proof (cases "length u \<le> Suc p + 10")
    case True
    then show ?thesis by simp
  next
    case False
    then have "drop (Suc p + 10) u = u ! (Suc p + 10) # drop (Suc (Suc p + 10)) u"
      by (intro Cons_nth_drop_Suc [symmetric]) simp
    moreover have "drop 10 (drop (Suc p) u) = drop (Suc p + 10) u"
      by (simp only: drop_drop add.commute)
    ultimately show ?thesis
      using False by (simp only: list.case simp_thms)
  qed
  show ?thesis
    unfolding split match_here_def asin_segment_at_def
    using tail by auto
qed

lemma regex_match_step:
  assumes "p < length u"
  shows "regex_match (drop p u) =
    (if asin_segment_at u (Suc p) then Some (take 10 (drop (Suc p) u))
     else regex_match (drop (Suc p) u))"
proof -
  have split: "drop p u = u ! p # drop (Suc p) u"
    using assms by (simp add: Cons_nth_drop_Suc)
  have "regex_match (drop p u) =
      (case match_here (drop p u) of Some g \<Rightarrow> Some g | None \<Rightarrow> regex_match (drop (Suc p) u))"
    using regex_match.simps(2) [of "u ! p" "drop (Suc p) u"]
    unfolding split [symmetric] .
  then show ?thesis
    by (simp add: match_here_drop [OF assms])
qed

lemma regex_match_first:
  assumes "asin_segment_at u i" and "p < i"
    and "\<And>j. p < j \<Longrightarrow> j < i \<Longrightarrow> \<not> asin_segment_at u j"
  shows "regex_match (drop p u) = Some (take 10 (drop i u))"
  using assms
proof (induction "i - Suc p" arbitrary: p)
  case 0
  then have "i = Suc p" by simp
  moreover from "0.prems"(1) have "i + 10 \<le> length u"
    by (simp add: asin_segment_at_def)
  ultimately show ?case
    using "0.prems"(1) by (simp add: regex_match_step)
next
  case (Suc n)
  then have less: "Suc p < i" by simp
  from Suc.prems(1) have "i + 10 \<le> length u"
    by (simp add: asin_segment_at_def)
  with less have p: "p < length u" by simp
  have no: "\<not> asin_segment_at u (Suc p)"
    using Suc.prems(3) [of "Suc p"] less by simp
  have "regex_match (drop (Suc p) u) = Some (take 10 (drop i u))"
  proof (rule Suc.hyps(1))
    show "n = i - Suc (Suc p)" using Suc.hyps(2) by simp
    show "asin_segment_at u i" by (rule Suc.prems(1))
    show "Suc p < i" by (rule less)
    show "\<not> asin_segment_at u j" if "Suc p < j" "j < i" for j
      using that Suc.prems(3) [of j] by simp
  qed
  with p no show ?case
    by (simp add: regex_match_step)
qed

lemma regex_match_none:
  assumes "\<And>j. p < j \<Longrightarrow> \<not> asin_segment_at u j"
  shows "regex_match (drop p u) = None"
  using assms
proof (induction "length u - p" arbitrary: p)
  case 0
  then show ?case by simp
next
  case (Suc n)
  then have p: "p < length u" by simp
  have "regex_match (drop (Suc p) u) = None"
    using Suc.hyps(2) Suc.prems by (intro Suc.hyps(1)) simp_all
  with p Suc.prems [of "Suc p"] show ?case
    by (simp add: regex_match_step)
qed

text \<open>
  C2. When the URL holds a segment of ten uppercase letters or digits that is immediately
  preceded by \<open>/\<close> and followed by \<open>/\<close>, \<open>?\<close> or the end of the string, \<open>extractASIN\<close>
  returns exactly the first such segment. For every other string, and for a missing URL, it
  returns null. The function is total: it has no branch that throws.
\<close>

theorem extractASIN_first_segment:
  "(asin_segment_at u i \<and> (\<forall>j<i. \<not> asin_segment_at u j)
      \<longrightarrow> extractASIN (Some u) = Some (take 10 (drop i u)))
   \<and> ((\<forall>i. \<not> asin_segment_at u i) \<longrightarrow> extractASIN (Some u) = None)
   \<and> extractASIN None = None"
proof (intro conjI impI)
  assume a: "asin_segment_at u i \<and> (\<forall>j<i. \<not> asin_segment_at u j)"
  then have "0 < i" and "u \<noteq> []"
    by (auto simp: asin_segment_at_def)
  with a have "regex_match (drop 0 u) = Some (take 10 (drop i u))"
    by (intro regex_match_first) auto
  with \<open>u \<noteq> []\<close> show "extractASIN (Some u) = Some (take 10 (drop i u))"
    by (simp add: extractASIN_def)
next
  assume "\<forall>i. \<not> asin_segment_at u i"
  then have "regex_match (drop 0 u) = None"
    by (intro regex_match_none) auto
  then show "extractASIN (Some u) = None"
    by (simp add: extractASIN_def)
next
  show "extractASIN None = None"
    by (simp add: extractASIN_def)
qed

theorem extractASIN_first_segment_witness:
  "asin_segment_at (ascii ''https://www.amazon.com/dp/B08XYZAB12/'') 26
   \<and> extractASIN (Some (ascii ''https://www.amazon.com/dp/B08XYZAB12/'')) = Some (ascii ''B08XYZAB12'')
   \<and> extractASIN (Some (ascii ''https://example.com/b08xyzab12'')) = None"
proof -
  let ?u = "ascii ''https://www.amazon.com/dp/B08XYZAB12/''"
  let ?v = "ascii ''https://example.com/b08xyzab12''"
  have seg: "asin_segment_at ?u 26"
    by code_simp
  have before: "list_all (\<lambda>j. \<not> asin_segment_at ?u j) [0..<26]"
    by code_simp
  have first: "\<forall>j<26. \<not> asin_segment_at ?u j"
  proof (intro allI impI)
    fix j :: nat
    assume "j < 26"
    then have "j \<in> set [0..<26]" by simp
    with before show "\<not> asin_segment_at ?u j"
      unfolding list_all_iff by blast
  qed
  have seg_eq: "take 10 (drop 26 ?u) = ascii ''B08XYZAB12''"
    by code_simp
  have short: "list_all (\<lambda>i. \<not> asin_segment_at ?v i) [0..<21]"
    by code_simp
  have len: "length ?v = 30"
    by code_simp
  have none: "\<forall>i. \<not> asin_segment_at ?v i"
  proof (intro allI notI)
    fix i
    assume i: "asin_segment_at ?v i"
    then have "i + 10 \<le> length ?v"
      unfolding asin_segment_at_def by (elim conjE)
    then have "i + 10 \<le> 30" by (simp only: len)
    then have "i \<in> set [0..<21]" by simp
    with short i show False
      unfolding list_all_iff by blast
  qed
  have found: "extractASIN (Some ?u) = Some (take 10 (drop 26 ?u))"
    using extractASIN_first_segment [of ?u 26] seg first by blast
  have absent: "extractASIN (Some ?v) = None"
    using extractASIN_first_segment [of ?v 0] none by blast
  from found have "extractASIN (Some ?u) = Some (ascii ''B08XYZAB12'')"
    by (simp only: seg_eq)
  with seg absent show ?thesis
    by (intro conjI)
qed

section \<open>Reorder: the move and its writes\<close>

lemma findIndex_first:
  "i < length xs \<Longrightarrow> p (xs ! i) \<Longrightarrow> (\<And>j. j < i \<Longrightarrow> \<not> p (xs ! j)) \<Longrightarrow> findIndex p xs = int i"
proof (induction xs arbitrary: i)
  case Nil
  then show ?case by simp
next
  case (Cons x xs)
  show ?case
  proof (cases i)
    case 0
    with Cons.prems show ?thesis by simp
  next
    case (Suc n)
    with Cons.prems(3) [of 0] have nox: "\<not> p x" by simp
    have "findIndex p xs = int n"
    proof (rule Cons.IH)
      show "n < length xs" using Cons.prems(1) Suc by simp
      show "p (xs ! n)" using Cons.prems(2) Suc by simp
      show "\<not> p (xs ! j)" if "j < n" for j
        using Cons.prems(3) [of "Suc j"] that Suc by simp
    qed
    with nox Suc show ?thesis by simp
  qed
qed

lemma findIndex_distinct:
  assumes "distinct (map f xs)" and "i < length xs"
  shows "findIndex (\<lambda>b. f b = f (xs ! i)) xs = int i"
proof (rule findIndex_first)
  show "i < length xs" by (rule assms(2))
  show "f (xs ! i) = f (xs ! i)" by simp
  show "f (xs ! j) \<noteq> f (xs ! i)" if "j < i" for j
  proof -
    from that assms(2) have "j < length (map f xs)" "i < length (map f xs)" "j \<noteq> i"
      by simp_all
    then have "map f xs ! j \<noteq> map f xs ! i"
      using nth_eq_iff_index_eq [OF assms(1), of j i] by blast
    with that assms(2) show ?thesis by simp
  qed
qed

lemma splice_start_nat: "splice_start n (int j) = min j n"
  by (simp add: splice_start_def)

lemma take_min_length: "take (min j (length ys)) ys = take j ys"
  by (simp add: min_def)

lemma drop_min_length: "drop (min j (length ys)) ys = drop j ys"
  by (simp add: min_def)

lemma arrayMove_in_bounds:
  assumes "i < length xs"
  shows "arrayMove xs (int i) (int j) = Some (reorder xs i j)"
proof -
  have k: "min i (length xs) = i"
    using assms by simp
  show ?thesis
    unfolding arrayMove_def reorder_def Let_def
    by (simp only: of_nat_less_0_iff if_False splice_start_nat k assms if_True
        take_min_length drop_min_length append_Cons append_Nil)
qed


lemma nth_insert_at:
  "j \<le> length ys \<Longrightarrow> (take j ys @ x # drop j ys) ! j = x"
  by (simp add: nth_append)





lemma length_reorder: "i < length xs \<Longrightarrow> length (reorder xs i j) = length xs"
  by (auto simp: reorder_def Let_def)

lemma mset_reorder:
  assumes "i < length xs"
  shows "mset (reorder xs i j) = mset xs"
proof -
  define rest where "rest = take i xs @ drop (Suc i) xs"
  have split: "mset (take j rest) + mset (drop j rest) = mset rest"
    by (simp only: mset_append [symmetric] append_take_drop_id)
  have "mset (reorder xs i j) = mset (take j rest) + mset (drop j rest) + {#xs ! i#}"
    by (simp add: reorder_def Let_def rest_def [symmetric])
  also have "\<dots> = mset rest + {#xs ! i#}"
    by (simp only: split)
  also have "\<dots> = mset (take i xs @ xs ! i # drop (Suc i) xs)"
    by (simp add: rest_def)
  also have "\<dots> = mset xs"
    using assms by (simp only: id_take_nth_drop [symmetric])
  finally show ?thesis .
qed

lemma nth_reorder_destination:
  assumes "i < length xs" and "j < length xs"
  shows "reorder xs i j ! j = xs ! i"
proof -
  have "j \<le> length (take i xs @ drop (Suc i) xs)"
    using assms by simp
  then show ?thesis
    unfolding reorder_def Let_def by (rule nth_insert_at)
qed

lemma reorder_others:
  assumes "i < length xs" and "j < length xs"
  shows "take j (reorder xs i j) @ drop (Suc j) (reorder xs i j) = take i xs @ drop (Suc i) xs"
proof -
  define rest where "rest = take i xs @ drop (Suc i) xs"
  have l: "length (take j rest) = j"
    using assms by (simp add: rest_def)
  have nb: "reorder xs i j = take j rest @ xs ! i # drop j rest"
    by (simp only: reorder_def Let_def rest_def)
  have "take j (reorder xs i j) = take j rest"
    unfolding nb using l by simp
  moreover have "drop (Suc j) (reorder xs i j) = drop j rest"
    unfolding nb using l by simp
  ultimately show ?thesis
    by (simp only: append_take_drop_id rest_def)
qed


lemma map_reorder: "i < length xs \<Longrightarrow> map f (reorder xs i j) = reorder (map f xs) i j"
  by (simp add: reorder_def Let_def take_map drop_map)

lemma order_updates_nth:
  "order_updates bs = map (\<lambda>k. Update_book_order (id_book (bs ! k)) (int k)) [0..<length bs]"
  by (rule nth_equalityI) (simp_all add: order_updates_def nth_enumerate_eq)

lemma updates_of_order_updates:
  "updates_of (order_updates bs) = map (\<lambda>k. (id_book (bs ! k), int k)) [0..<length bs]"
proof -
  have "updates_of (map (\<lambda>k. Update_book_order (f k) (g k)) ks) = map (\<lambda>k. (f k, g k)) ks"
    for f g :: "nat \<Rightarrow> int" and ks
    by (induction ks) simp_all
  then show ?thesis
    by (simp only: order_updates_nth)
qed

lemma handleDragEnd_reorder:
  assumes "distinct (map id_book (books st))"
    and "i < length (books st)" and "j < length (books st)" and "i \<noteq> j"
  shows "handleDragEnd st \<lparr>active = id_book (books st ! i), over = Some (id_book (books st ! j))\<rparr>
    = Inr (st\<lparr>books := reorder (books st) i j\<rparr>, order_updates (reorder (books st) i j))"
proof -
  have ne: "id_book (books st ! i) \<noteq> id_book (books st ! j)"
    using assms by (metis distinct_conv_nth length_map nth_map)
  have old: "findIndex (\<lambda>b. id_book b = id_book (books st ! i)) (books st) = int i"
    using assms(1,2) by (rule findIndex_distinct)
  have new: "findIndex (\<lambda>b. id_book b = id_book (books st ! j)) (books st) = int j"
    using assms(1,3) by (rule findIndex_distinct)
  show ?thesis
    using ne by (simp add: handleDragEnd_def old new arrayMove_in_bounds assms(2))
qed

lemma apply_updates_Cons: "apply_updates rows (w # ws) = apply_updates (store_update rows w) ws"
  by (simp add: apply_updates_def)

lemma length_store_update: "length (store_update rows w) = length rows"
  by (simp add: store_update_def)

lemma nth_store_update:
  "p < length rows \<Longrightarrow>
   store_update rows w ! p =
     (if id_book (rows ! p) = fst w then (rows ! p)\<lparr>book_order := snd w\<rparr> else rows ! p)"
  by (simp add: store_update_def)

lemma length_apply_updates: "length (apply_updates rows ws) = length rows"
  by (induction ws arbitrary: rows) (simp_all add: apply_updates_def length_store_update)

lemma apply_updates_untouched:
  "p < length rows \<Longrightarrow> id_book (rows ! p) \<notin> fst ` set ws \<Longrightarrow>
   apply_updates rows ws ! p = rows ! p"
proof (induction ws arbitrary: rows)
  case Nil
  then show ?case by (simp add: apply_updates_def)
next
  case (Cons w ws)
  from Cons.prems have same: "store_update rows w ! p = rows ! p"
    by (simp add: nth_store_update)
  have "apply_updates (store_update rows w) ws ! p = store_update rows w ! p"
    using Cons.prems same by (intro Cons.IH) (simp_all add: length_store_update)
  with same show ?case
    by (simp add: apply_updates_Cons)
qed

lemma apply_updates_written:
  "distinct (map fst ws) \<Longrightarrow> (i, k) \<in> set ws \<Longrightarrow> p < length rows \<Longrightarrow>
   id_book (rows ! p) = i \<Longrightarrow>
   apply_updates rows ws ! p = (rows ! p)\<lparr>book_order := k\<rparr>"
proof (induction ws arbitrary: rows)
  case Nil
  then show ?case by simp
next
  case (Cons w ws)
  from Cons.prems(1) have fresh: "fst w \<notin> fst ` set ws" and dist: "distinct (map fst ws)"
    by simp_all
  show ?case
  proof (cases "w = (i, k)")
    case True
    with Cons.prems have now: "store_update rows w ! p = (rows ! p)\<lparr>book_order := k\<rparr>"
      by (simp add: nth_store_update)
    have "apply_updates (store_update rows w) ws ! p = store_update rows w ! p"
      using Cons.prems(3,4) fresh True now
      by (intro apply_updates_untouched) (simp_all add: length_store_update)
    with now show ?thesis
      by (simp add: apply_updates_Cons)
  next
    case False
    with Cons.prems(2) have later: "(i, k) \<in> set ws" by simp
    then have "i \<in> fst ` set ws" by force
    with fresh have "fst w \<noteq> i" by blast
    with Cons.prems have same: "store_update rows w ! p = rows ! p"
      by (simp add: nth_store_update)
    have "apply_updates (store_update rows w) ws ! p
        = (store_update rows w ! p)\<lparr>book_order := k\<rparr>"
      using dist later Cons.prems(3,4) same
      by (intro Cons.IH) (simp_all add: length_store_update)
    with same show ?thesis
      by (simp add: apply_updates_Cons)
  qed
qed

lemma order_updates_written:
  assumes "distinct (map id_book bs)"
    and "mset ws = mset (updates_of (order_updates bs))"
    and "k < length bs" and "p < length rows" and "id_book (rows ! p) = id_book (bs ! k)"
  shows "apply_updates rows ws ! p = (rows ! p)\<lparr>book_order := int k\<rparr>"
proof -
  let ?us = "updates_of (order_updates bs)"
  have fst_us: "map fst ?us = map id_book bs"
    by (rule nth_equalityI) (simp_all add: updates_of_order_updates)
  have "mset (map fst ws) = mset (map fst ?us)"
    using assms(2) by (metis mset_map)
  with fst_us assms(1) have dist: "distinct (map fst ws)"
    by (metis mset_eq_imp_distinct_iff)
  have "(id_book (bs ! k), int k) \<in> set ?us"
    using assms(3) by (simp add: updates_of_order_updates)
  with assms(2) have mem: "(id_book (bs ! k), int k) \<in> set ws"
    by (metis mset_eq_setD)
  from dist mem assms(4,5) show ?thesis
    by (intro apply_updates_written) simp_all
qed

text \<open>
  C1, as the code has it. For a list whose records have distinct identifiers and valid,
  distinct, in-bounds source and destination positions, \<open>handleDragEnd\<close> returns, and the
  local sequence becomes the input with the source record removed and reinserted at the
  destination: a permutation of the input in which the other records keep their relative
  order. The local records are not renumbered: each keeps the \<open>book_order\<close> it had. One
  update per record is issued, writing the record's new positional index as its
  \<open>book_order\<close>; once the writes have completed, in whatever order, every row of the
  store with the identifier of the record at position \<open>k\<close> holds \<open>book_order = k\<close>.
\<close>

theorem handleDragEnd_moves_record:
  assumes "distinct (map id_book (books st))"
    and "i < length (books st)" and "j < length (books st)" and "i \<noteq> j"
  shows "handleDragEnd st
           \<lparr>active = id_book (books st ! i), over = Some (id_book (books st ! j))\<rparr>
         = Inr (st\<lparr>books := reorder (books st) i j\<rparr>,
                map (\<lambda>k. Update_book_order (id_book (reorder (books st) i j ! k)) (int k))
                  [0..<length (books st)])
       \<and> mset (reorder (books st) i j) = mset (books st)
       \<and> reorder (books st) i j ! j = books st ! i
       \<and> take j (reorder (books st) i j) @ drop (Suc j) (reorder (books st) i j)
           = take i (books st) @ drop (Suc i) (books st)
       \<and> map book_order (reorder (books st) i j) = reorder (map book_order (books st)) i j
       \<and> (mset ws = mset (updates_of (order_updates (reorder (books st) i j)))
            \<and> k < length (books st) \<and> p < length rows
            \<and> id_book (rows ! p) = id_book (reorder (books st) i j ! k)
           \<longrightarrow> apply_updates rows ws ! p = (rows ! p)\<lparr>book_order := int k\<rparr>)"
proof -
  let ?nb = "reorder (books st) i j"
  have len: "length ?nb = length (books st)"
    using assms(2) by (rule length_reorder)
  have run: "handleDragEnd st
      \<lparr>active = id_book (books st ! i), over = Some (id_book (books st ! j))\<rparr>
    = Inr (st\<lparr>books := ?nb\<rparr>,
        map (\<lambda>k. Update_book_order (id_book (?nb ! k)) (int k)) [0..<length (books st)])"
    using handleDragEnd_reorder [OF assms] by (simp only: order_updates_nth len)
  have perm: "mset ?nb = mset (books st)"
    using assms(2) by (rule mset_reorder)
  have dest: "?nb ! j = books st ! i"
    using assms(2,3) by (rule nth_reorder_destination)
  have others: "take j ?nb @ drop (Suc j) ?nb = take i (books st) @ drop (Suc i) (books st)"
    using assms(2,3) by (rule reorder_others)
  have stale: "map book_order ?nb = reorder (map book_order (books st)) i j"
    using assms(2) by (rule map_reorder)
  have "mset (map id_book ?nb) = mset (map id_book (books st))"
    using perm by simp
  with assms(1) have dist: "distinct (map id_book ?nb)"
    by (metis mset_eq_imp_distinct_iff)
  have store: "apply_updates rows ws ! p = (rows ! p)\<lparr>book_order := int k\<rparr>"
    if "mset ws = mset (updates_of (order_updates ?nb))" and "k < length (books st)"
      and "p < length rows" and "id_book (rows ! p) = id_book (?nb ! k)"
    using dist that by (intro order_updates_written [of ?nb]) (simp_all only: len)
  from run perm dest others stale store show ?thesis
    by blast
qed

theorem handleDragEnd_moves_record_witness:
  "handleDragEnd shelf3 \<lparr>active = 1, over = Some 3\<rparr>
     = Inr (shelf3\<lparr>books := [mk_book 2 1, mk_book 3 2, mk_book 1 0]\<rparr>,
            [Update_book_order 2 0, Update_book_order 3 1, Update_book_order 1 2])
   \<and> reorder (books shelf3) 0 2 = [mk_book 2 1, mk_book 3 2, mk_book 1 0]
   \<and> apply_updates (books shelf3) [(1, 2), (3, 1), (2, 0)] ! 0 = mk_book 1 2
   \<and> apply_updates (books shelf3) [(1, 2), (3, 1), (2, 0)]
       = [mk_book 1 2, mk_book 2 0, mk_book 3 1]"
proof -
  have nb: "reorder (books shelf3) 0 2 = [mk_book 2 1, mk_book 3 2, mk_book 1 0]"
    by (simp add: shelf3_def reorder_def)
  have ids: "distinct (map id_book (books shelf3))"
    by (simp add: shelf3_def mk_book_def)
  have len: "length (books shelf3) = 3"
    by (simp add: shelf3_def)
  have ws: "mset [(1, 2), (3, 1), (2, 0)]
      = mset (updates_of (order_updates (reorder (books shelf3) 0 2)))"
    by (simp add: nb order_updates_def mk_book_def)
  have b0: "books shelf3 ! 0 = mk_book 1 0" and b2: "books shelf3 ! 2 = mk_book 3 2"
    by (simp_all add: shelf3_def)
  have tab: "apply_updates (books shelf3) [(1, 2), (3, 1), (2, 0)]
      = [mk_book 1 2, mk_book 2 0, mk_book 3 1]"
    by (simp add: apply_updates_def store_update_def shelf3_def mk_book_def)
  from handleDragEnd_moves_record [of shelf3 0 2 "[(1, 2), (3, 1), (2, 0)]" 2 0 "books shelf3"]
  show ?thesis
    using ids ws tab by (simp add: len nb b0 b2 mk_book_def upt_rec)
qed

text \<open>
  The scenario of C1 on the code: after Reorder(0 -> 2) the local list holds the orders
  1, 2, 0, not 0, 1, 2; the dense values go to the store only.
\<close>

theorem handleDragEnd_local_order_counterexample:
  "handleDragEnd shelf3 \<lparr>active = 1, over = Some 3\<rparr>
     = Inr (shelf3\<lparr>books := [mk_book 2 1, mk_book 3 2, mk_book 1 0]\<rparr>,
            [Update_book_order 2 0, Update_book_order 3 1, Update_book_order 1 2])
   \<and> [mk_book 2 1, mk_book 3 2, mk_book 1 0] \<noteq> [mk_book 2 0, mk_book 3 1, mk_book 1 2]
   \<and> map book_order [mk_book 2 1, mk_book 3 2, mk_book 1 0] = [1, 2, 0]"
  by (simp add: handleDragEnd_def arrayMove_def splice_start_def order_updates_def
      shelf3_def mk_book_def)




section \<open>Drag end without a move\<close>

text \<open>
  C10. A drag-end event with no drop target (\<open>over\<close> is null) leaves the whole component
  state, the local list included, as it was and issues no request to the store, so no
  table is written.
\<close>

theorem handleDragEnd_no_target:
  "case handleDragEnd st \<lparr>active = a, over = None\<rparr> of
     Inl e \<Rightarrow> False
   | Inr (st', es) \<Rightarrow> st' = st \<and> es = [] \<and> apply_updates rows (updates_of es) = rows"
  by (simp add: handleDragEnd_def apply_updates_def)

theorem handleDragEnd_no_target_witness:
  "handleDragEnd shelf3 \<lparr>active = 1, over = None\<rparr> = Inr (shelf3, [])"
  using handleDragEnd_no_target [where st = shelf3 and a = 1 and rows = "books shelf3"]
  by (simp split: sum.splits prod.splits)

text \<open>
  C4. A drag that ends on the record it started from (\<open>active.id\<close> equals \<open>over.id\<close>, so
  source and destination index coincide) is a no-op: the state, hence the local sequence
  and every \<open>book_order\<close> in it, is returned unchanged, and no request is issued, so the
  table of the store stays as it is.
\<close>

theorem handleDragEnd_same_record:
  "(case handleDragEnd st \<lparr>active = a, over = Some a\<rparr> of
      Inl e \<Rightarrow> False
    | Inr (st', es) \<Rightarrow> st' = st \<and> es = [] \<and> apply_updates rows (updates_of es) = rows)
   \<and> (i < length (books st) \<longrightarrow>
        handleDragEnd st \<lparr>active = id_book (books st ! i), over = Some (id_book (books st ! i))\<rparr>
          = Inr (st, []))"
  by (simp add: handleDragEnd_def apply_updates_def)

theorem handleDragEnd_same_record_witness:
  "(1::nat) < length (books shelf3)
   \<and> id_book (books shelf3 ! 1) = 2
   \<and> handleDragEnd shelf3 \<lparr>active = 2, over = Some 2\<rparr> = Inr (shelf3, [])"
  using handleDragEnd_same_record [where st = shelf3 and a = 2 and rows = "books shelf3" and i = 1]
  by (simp add: shelf3_def mk_book_def)

section \<open>Visibility toggle\<close>

text \<open>
  C8. The toggle is a boolean, so it has exactly two states. Collapsed (\<open>showAll\<close> false)
  renders the first five records of the current order, expanded renders the whole list,
  the initial state is collapsed, and the button switches between the two.
\<close>

theorem visibleBooks_toggle:
  "showAll init_state = False
   \<and> (\<not> showAll st \<longrightarrow> visibleBooks st = take 5 (books st))
   \<and> (showAll st \<longrightarrow> visibleBooks st = books st)
   \<and> showAll (toggleShowAll st) = (\<not> showAll st)
   \<and> books (toggleShowAll st) = books st"
  by (simp add: init_state_def visibleBooks_def toggleShowAll_def)

theorem visibleBooks_toggle_witness:
  "\<not> showAll shelf3
   \<and> visibleBooks shelf3 = take 5 (books shelf3)
   \<and> showAll (toggleShowAll shelf3)
   \<and> visibleBooks (toggleShowAll shelf3) = books shelf3"
  using visibleBooks_toggle [of shelf3] visibleBooks_toggle [of "toggleShowAll shelf3"]
  by (simp add: shelf3_def toggleShowAll_def)

section \<open>Load\<close>

text \<open>
  C7. Load issues one select and nothing else, so there is no retry. When the store
  reports an error the state is kept, so the list of the initial state stays empty. When the
  read succeeds the local list is replaced wholesale by the data of the answer, which for
  an answer to the ordered query is the table's records sorted by \<open>book_order\<close>.
\<close>

theorem fetchBooks_load:
  "snd (fetchBooks st r) = [Select_books]
   \<and> (error r \<noteq> None \<longrightarrow>
        fst (fetchBooks st r) = st \<and> books (fst (fetchBooks init_state r)) = [])
   \<and> (error r = None \<and> data r = Some d \<longrightarrow> fst (fetchBooks st r) = st\<lparr>books := d\<rparr>)
   \<and> (ordered_select rows r \<longrightarrow>
        mset (books (fst (fetchBooks st r))) = mset rows
        \<and> sorted (map book_order (books (fst (fetchBooks st r)))))"
  by (auto simp: fetchBooks_def init_state_def ordered_select_def split: option.splits)

theorem fetchBooks_load_witness:
  "error failed \<noteq> None
   \<and> books (fst (fetchBooks init_state failed)) = []
   \<and> snd (fetchBooks init_state failed) = [Select_books]
   \<and> ordered_select [mk_book 2 1, mk_book 1 0] (succeeded [mk_book 1 0, mk_book 2 1])
   \<and> fst (fetchBooks init_state (succeeded [mk_book 1 0, mk_book 2 1]))
       = init_state\<lparr>books := [mk_book 1 0, mk_book 2 1]\<rparr>
   \<and> sorted (map book_order
        (books (fst (fetchBooks init_state (succeeded [mk_book 1 0, mk_book 2 1])))))"
proof -
  have sel: "ordered_select [mk_book 2 1, mk_book 1 0] (succeeded [mk_book 1 0, mk_book 2 1])"
    by (simp add: ordered_select_def succeeded_def mk_book_def add.commute)
  show ?thesis
    using sel
      fetchBooks_load [of init_state failed "[]" "[]"]
      fetchBooks_load [of init_state "succeeded [mk_book 1 0, mk_book 2 1]"
        "[mk_book 1 0, mk_book 2 1]" "[mk_book 2 1, mk_book 1 0]"]
    by (simp add: failed_def succeeded_def init_state_def mk_book_def)
qed

section \<open>Append\<close>

lemma all_dropWhile_iff: "(\<forall>x\<in>set (dropWhile p s). p x) \<longleftrightarrow> (\<forall>x\<in>set s. p x)"
  by (induction s) auto

lemma trim_empty_iff: "trim s = [] \<longleftrightarrow> (\<forall>c\<in>set s. is_white_space c)"
  by (simp add: trim_def dropWhile_eq_Nil_conv all_dropWhile_iff)

text \<open>
  C9. When the input is empty or holds only white space, \<open>addBook\<close> returns at its guard:
  the state (list, input field, success message) is unchanged and no request, so no
  insert, is issued, whatever the store would have answered.
\<close>

theorem addBook_blank_input:
  "(\<forall>c\<in>set (newUrl st). is_white_space c) \<Longrightarrow> addBook st ins sel = (st, [])"
  by (simp add: addBook_def trim_empty_iff)

theorem addBook_blank_input_witness:
  "list_all is_white_space (newUrl (shelf3\<lparr>newUrl := ascii '' ''\<rparr>))
   \<and> newUrl (shelf3\<lparr>newUrl := ascii '' ''\<rparr>) \<noteq> []
   \<and> addBook (shelf3\<lparr>newUrl := ascii '' ''\<rparr>) (succeeded []) (succeeded [])
       = (shelf3\<lparr>newUrl := ascii '' ''\<rparr>, [])
   \<and> addBook shelf3 (succeeded []) (succeeded []) = (shelf3, [])"
proof -
  have blank: "\<forall>c\<in>set (newUrl (shelf3\<lparr>newUrl := ascii '' ''\<rparr>)). is_white_space c"
    by (simp add: ascii_def is_white_space_def)
  have empty: "\<forall>c\<in>set (newUrl shelf3). is_white_space c"
    by (simp add: shelf3_def)
  show ?thesis
    using blank [folded list_all_iff]
      addBook_blank_input [OF blank, of "succeeded []" "succeeded []"]
      addBook_blank_input [OF empty, of "succeeded []" "succeeded []"]
    by (simp add: ascii_def)
qed

text \<open>
  C6. When the input is not blank and the store reports an error on the insert, the whole
  state is returned unchanged: the list is kept, the input field is not cleared and no
  success message is set. The state has no cell for an error, so none is shown; the only
  request issued is the insert.
\<close>

theorem addBook_write_error:
  "trim (newUrl st) \<noteq> [] \<Longrightarrow> error ins \<noteq> None \<Longrightarrow>
   addBook st ins sel = (st, [Insert_book (newUrl st) (int (length (books st)))])"
  by (auto simp: addBook_def split: option.splits)

theorem addBook_write_error_witness:
  "trim (newUrl (shelf3\<lparr>newUrl := ascii ''/dp/B08XYZAB12''\<rparr>)) \<noteq> []
   \<and> error failed \<noteq> None
   \<and> addBook (shelf3\<lparr>newUrl := ascii ''/dp/B08XYZAB12''\<rparr>) failed (succeeded [])
       = (shelf3\<lparr>newUrl := ascii ''/dp/B08XYZAB12''\<rparr>,
          [Insert_book (ascii ''/dp/B08XYZAB12'') 3])"
proof -
  have filled: "trim (newUrl (shelf3\<lparr>newUrl := ascii ''/dp/B08XYZAB12''\<rparr>)) \<noteq> []"
    by (simp add: trim_empty_iff ascii_def is_white_space_def)
  have err: "error failed \<noteq> None"
    by (simp add: failed_def)
  show ?thesis
    using filled err addBook_write_error [OF filled err, of "succeeded []"]
    by (simp add: shelf3_def)
qed

text \<open>
  What \<open>addBook\<close> does with a non-blank input: it issues exactly one insert, whose record
  carries \<open>book_order\<close> equal to the length of the list before the insert; the list is kept
  when the insert fails and replaced by the data of the reload when the reload brings data.
\<close>

lemma addBook_insert:
  assumes "trim (newUrl st) \<noteq> []"
  shows "hd (snd (addBook st ins sel)) = Insert_book (newUrl st) (int (length (books st)))
       \<and> [e \<leftarrow> snd (addBook st ins sel). e \<noteq> Select_books \<and> e \<noteq> Set_timeout 2000]
           = [Insert_book (newUrl st) (int (length (books st)))]
       \<and> (error ins \<noteq> None \<longrightarrow> books (fst (addBook st ins sel)) = books st)
       \<and> (error ins = None \<and> data sel = Some d \<longrightarrow> books (fst (addBook st ins sel)) = d)"
  using assms by (cases "error ins") (simp_all add: addBook_def)

text \<open>
  C3. Append is to never decrease the length of the list and to insert a record whose
  \<open>book_order\<close> is the length before the insert. The inserted record is as claimed, but
  the length is not kept on this input: a list of three records, a non-blank URL, an insert
  that the store accepts and a reload that the store answers with an error and no data.
  \<open>addBook\<close> does not look at the error of the reload: it replaces the three records by the
  empty list (\<^verbatim>\<open>setBooks(data || [])\<close>), clears the input and sets the success message.
  \<open>fetchBooks\<close>, given the same answer, checks \<^verbatim>\<open>!error && data\<close> and keeps the list.
\<close>

theorem addBook_reload_error_empties_list:
  "trim (newUrl (shelf3\<lparr>newUrl := ascii ''/dp/B08XYZAB12/''\<rparr>)) \<noteq> []
   \<and> error accepted = None
   \<and> error failed \<noteq> None
   \<and> addBook (shelf3\<lparr>newUrl := ascii ''/dp/B08XYZAB12/''\<rparr>) accepted failed
       = (\<lparr>books = [], newUrl = [], showAll = False, successMessage = success_text\<rparr>,
          [Insert_book (ascii ''/dp/B08XYZAB12/'') 3, Select_books, Set_timeout 2000])
   \<and> length (books (fst (addBook (shelf3\<lparr>newUrl := ascii ''/dp/B08XYZAB12/''\<rparr>) accepted failed)))
       < length (books (shelf3\<lparr>newUrl := ascii ''/dp/B08XYZAB12/''\<rparr>))
   \<and> books (fst (fetchBooks (shelf3\<lparr>newUrl := ascii ''/dp/B08XYZAB12/''\<rparr>) failed))
       = books (shelf3\<lparr>newUrl := ascii ''/dp/B08XYZAB12/''\<rparr>)"
proof -
  have filled: "trim (newUrl (shelf3\<lparr>newUrl := ascii ''/dp/B08XYZAB12/''\<rparr>)) \<noteq> []"
    by (simp add: trim_empty_iff ascii_def is_white_space_def)
  then show ?thesis
    by (simp add: addBook_def fetchBooks_def accepted_def failed_def shelf3_def)
qed

end
